theory Spec2Isabelle
  imports Complex_Main
begin

section \<open>Data model of \<open>modules/predict.py\<close> and \<open>nodes/notte.py\<close>\<close>

text \<open>
  Time stamps are Python floats; they are modelled as real numbers, so \<open>0.1\<close> is the exact
  tenth and \<open>(x + offset) - offset = x\<close>. Rounding and NaN are outside the model.
  Strings are lists of characters; a character stands for one code point below 256.
\<close>

text \<open>Python exceptions. \<open>KeyboardInterrupt\<close> and \<open>SystemExit\<close> derive from
  \<open>BaseException\<close> only; every other constructor is a subclass of \<open>Exception\<close>.
  \<open>RuntimeError msg cause\<close> is \<open>RuntimeError(msg, cause)\<close> as \<open>predict\<close> raises it.\<close>

datatype py_exception =
    ValueError string
  | RuntimeError string py_exception
  | UnboundLocalError string
  | KeyError string
  | OtherException string
  | KeyboardInterrupt
  | SystemExit

fun is_Exception :: "py_exception \<Rightarrow> bool" where
  "is_Exception KeyboardInterrupt = False"
| "is_Exception SystemExit = False"
| "is_Exception _ = True"

text \<open>A word and a segment as the speech-to-text engine returns them (objects with
  attributes \<open>start\<close>, \<open>end\<close>, \<open>word\<close>, \<open>probability\<close>; \<open>avg_logprob\<close>, \<open>text\<close>, \<open>words\<close>).\<close>

record asr_word =
  aw_start :: real
  aw_end :: real
  aw_word :: string
  aw_probability :: real

record asr_segment =
  as_avg_logprob :: real
  as_start :: real
  as_end :: real
  as_text :: string
  as_words :: "asr_word list"

text \<open>The dictionaries built from them at lines 206--223 (keys \<open>start\<close>, \<open>end\<close>, \<open>word\<close>,
  \<open>probability\<close>; \<open>avg_logprob\<close>, \<open>start\<close>, \<open>end\<close>, \<open>text\<close>, \<open>words\<close>).\<close>

record word =
  w_start :: real
  w_end :: real
  w_word :: string
  w_probability :: real

record segment =
  seg_avg_logprob :: real
  seg_start :: real
  seg_end :: real
  seg_text :: string
  seg_words :: "word list"

text \<open>An entry \<open>(turn, _, speaker)\<close> of \<open>diarization_list\<close>.\<close>

record track =
  turn_start :: real
  turn_end :: real
  speaker :: string

text \<open>\<open>new_segment\<close> (lines 295--302), an element of \<open>final_segments\<close>.\<close>

record final_segment =
  fs_avg_logprob :: real
  fs_start :: real
  fs_end :: real
  fs_speaker :: string
  fs_text :: string
  fs_words :: "word list"

text \<open>\<open>current_group\<close> (lines 320--330): the keys \<open>text\<close> and \<open>words\<close> may be absent.\<close>

record group =
  g_start :: real
  g_end :: real
  g_speaker :: string
  g_avg_logprob :: real
  g_text :: "string option"
  g_words :: "word list option"

record Output =
  segments :: "group list"
  language :: string
  num_speakers :: nat

text \<open>What the external collaborators hand to the merge: the transcript with its detected
  language, and the diarization tracks.\<close>

record engines =
  asr_segments :: "asr_segment list"
  asr_language :: string
  diarization :: "track list"

section \<open>String helpers of the Python library\<close>

text \<open>\<open>str.strip()\<close> removes leading and trailing white space.\<close>

definition py_isspace :: "char \<Rightarrow> bool" where
  "py_isspace c = (c \<in> set [CHR 0x09, CHR 0x0A, CHR 0x0B, CHR 0x0C, CHR 0x0D,
     CHR 0x1C, CHR 0x1D, CHR 0x1E, CHR 0x1F, CHR '' '', CHR 0x85, CHR 0xA0])"

definition py_strip :: "string \<Rightarrow> string" where
  "py_strip s = rev (dropWhile py_isspace (rev (dropWhile py_isspace s)))"

text \<open>\<open>re.sub("  ", " ", s)\<close>: one pass from the left, every non-overlapping occurrence of
  two spaces is replaced by one space.\<close>

fun re_sub_two_spaces :: "string \<Rightarrow> string" where
  "re_sub_two_spaces (a # b # cs) =
     (if a = CHR '' '' \<and> b = CHR '' '' then CHR '' '' # re_sub_two_spaces cs
      else a # re_sub_two_spaces (b # cs))"
| "re_sub_two_spaces cs = cs"

section \<open>\<open>Predictor.speech_to_text\<close>\<close>

subsection \<open>Building the dictionaries (lines 206--223)\<close>

definition word_dict :: "int \<Rightarrow> asr_word \<Rightarrow> word" where
  "word_dict offset_seconds w =
     \<lparr>w_start = aw_start w + real_of_int offset_seconds,
      w_end = aw_end w + real_of_int offset_seconds,
      w_word = aw_word w,
      w_probability = aw_probability w\<rparr>"

definition segment_dict :: "int \<Rightarrow> asr_segment \<Rightarrow> segment" where
  "segment_dict offset_seconds s =
     \<lparr>seg_avg_logprob = as_avg_logprob s,
      seg_start = as_start s + real_of_int offset_seconds,
      seg_end = as_end s + real_of_int offset_seconds,
      seg_text = as_text s,
      seg_words = map (word_dict offset_seconds) (as_words s)\<rparr>"

subsection \<open>Merging (lines 243--303)\<close>

definition margin :: real where
  "margin = 1 / 10"

text \<open>The \<open>while speaker_idx < n_speakers\<close> loop of lines 272--290 for one word, given the
  widened bounds. It returns the cursor, the variable \<open>speaker\<close> (\<open>None\<close> while unbound; every
  iteration binds it) and the turn of the overlap branch when the loop left through it.\<close>

function while_speaker ::
  "track list \<Rightarrow> real \<Rightarrow> real \<Rightarrow> nat \<Rightarrow> string option \<Rightarrow> nat \<times> string option \<times> track option"
where
  "while_speaker diarization_list word_start word_end speaker_idx spk =
     (if speaker_idx < length diarization_list then
        (let turn = diarization_list ! speaker_idx;
             spk' = Some (speaker turn)
         in if turn_start turn \<le> word_end \<and> turn_end turn \<ge> word_start then
              ((if turn_end turn \<le> word_end then speaker_idx + 1 else speaker_idx),
               spk', Some turn)
            else if turn_end turn < word_start then
              while_speaker diarization_list word_start word_end (speaker_idx + 1) spk'
            else (speaker_idx, spk', None))
      else (speaker_idx, spk, None))"
  by pat_completeness auto
termination
  by (relation "measure (\<lambda>(dl, ws, we, i, s). length dl - i)") auto

declare while_speaker.simps [simp del]

text \<open>The \<open>for word in segment["words"]\<close> loop (lines 268--290) with its accumulators
  \<open>segment_text\<close> and \<open>segment_words\<close>.\<close>

fun word_loop ::
  "track list \<Rightarrow> int \<Rightarrow> word list \<Rightarrow> nat \<Rightarrow> string option \<Rightarrow> string list \<Rightarrow> word list
   \<Rightarrow> nat \<times> string option \<times> string list \<times> word list"
where
  "word_loop dl offset_seconds [] speaker_idx spk segment_text segment_words =
     (speaker_idx, spk, segment_text, segment_words)"
| "word_loop dl offset_seconds (w # ws) speaker_idx spk segment_text segment_words =
     (let word_start = w_start w + real_of_int offset_seconds - margin;
          word_end = w_end w + real_of_int offset_seconds + margin
      in case while_speaker dl word_start word_end speaker_idx spk of
           (speaker_idx', spk', Some turn) \<Rightarrow>
             word_loop dl offset_seconds ws speaker_idx' spk'
               (segment_text @ [w_word w])
               (segment_words @ [w\<lparr>w_word := py_strip (w_word w)\<rparr>])
         | (speaker_idx', spk', None) \<Rightarrow>
             word_loop dl offset_seconds ws speaker_idx' spk' segment_text segment_words)"

text \<open>The body of \<open>for segment in segments\<close> (lines 262--303): the new cursor, the new value of
  \<open>speaker\<close>, and the \<open>new_segment\<close> appended to \<open>final_segments\<close>, if any. Reading \<open>speaker\<close>
  while it is unbound raises.\<close>

definition segment_body ::
  "track list \<Rightarrow> int \<Rightarrow> segment \<Rightarrow> nat \<Rightarrow> string option
   \<Rightarrow> py_exception + (nat \<times> string option \<times> final_segment option)"
where
  "segment_body dl offset_seconds seg speaker_idx spk =
     (let segment_start = seg_start seg + real_of_int offset_seconds;
          segment_end = seg_end seg + real_of_int offset_seconds
      in case word_loop dl offset_seconds (seg_words seg) speaker_idx spk [] [] of
           (speaker_idx', spk', segment_text, segment_words) \<Rightarrow>
             if segment_text \<noteq> [] then
               (let combined_text = concat segment_text;
                    cleaned_text = py_strip (re_sub_two_spaces combined_text)
                in case spk' of
                     None \<Rightarrow> Inl (UnboundLocalError ''speaker'')
                   | Some sp \<Rightarrow>
                       Inr (speaker_idx', spk',
                            Some \<lparr>fs_avg_logprob = seg_avg_logprob seg,
                                  fs_start = segment_start - real_of_int offset_seconds,
                                  fs_end = segment_end - real_of_int offset_seconds,
                                  fs_speaker = sp,
                                  fs_text = cleaned_text,
                                  fs_words = segment_words\<rparr>))
             else Inr (speaker_idx', spk', None))"

fun segment_loop ::
  "track list \<Rightarrow> int \<Rightarrow> segment list \<Rightarrow> nat \<Rightarrow> string option \<Rightarrow> final_segment list
   \<Rightarrow> py_exception + final_segment list"
where
  "segment_loop dl offset_seconds [] speaker_idx spk final_segments = Inr final_segments"
| "segment_loop dl offset_seconds (seg # segs) speaker_idx spk final_segments =
     (case segment_body dl offset_seconds seg speaker_idx spk of
        Inl e \<Rightarrow> Inl e
      | Inr (speaker_idx', spk', None) \<Rightarrow>
          segment_loop dl offset_seconds segs speaker_idx' spk' final_segments
      | Inr (speaker_idx', spk', Some new_segment) \<Rightarrow>
          segment_loop dl offset_seconds segs speaker_idx' spk'
            (final_segments @ [new_segment]))"

text \<open>The whole stage, from \<open>speaker_idx = 0\<close>, \<open>speaker\<close> unbound and no final segment.\<close>

definition merging :: "track list \<Rightarrow> int \<Rightarrow> segment list \<Rightarrow> py_exception + final_segment list" where
  "merging dl offset_seconds segs = segment_loop dl offset_seconds segs 0 None []"

subsection \<open>Cleaning (lines 314--361)\<close>

definition new_group :: "string \<Rightarrow> final_segment \<Rightarrow> group" where
  "new_group transcript_output_format s =
     \<lparr>g_start = fs_start s,
      g_end = fs_end s,
      g_speaker = fs_speaker s,
      g_avg_logprob = fs_avg_logprob s,
      g_text = (if transcript_output_format \<in> set [''segments_only'', ''both'']
                then Some (fs_text s) else None),
      g_words = (if transcript_output_format \<in> set [''words_only'', ''both'']
                 then Some (fs_words s) else None)\<rparr>"

text \<open>Lines 339--343. \<open>current_group["text"] += ...\<close> raises \<open>KeyError\<close> when the key is
  absent; \<open>setdefault("words", []).extend(...)\<close> creates the key when it is absent.\<close>

definition extend_group :: "string \<Rightarrow> group \<Rightarrow> final_segment \<Rightarrow> py_exception + group" where
  "extend_group transcript_output_format current_group s =
     (let g1 = current_group\<lparr>g_end := fs_end s\<rparr>
      in case (if transcript_output_format \<in> set [''segments_only'', ''both''] then
                 (case g_text g1 of
                    None \<Rightarrow> Inl (KeyError ''text'')
                  | Some t \<Rightarrow> Inr (g1\<lparr>g_text := Some (t @ '' '' @ fs_text s)\<rparr>))
               else Inr g1) of
           Inl e \<Rightarrow> Inl e
         | Inr g2 \<Rightarrow>
             if transcript_output_format \<in> set [''words_only'', ''both''] then
               Inr (g2\<lparr>g_words := Some ((case g_words g2 of None \<Rightarrow> [] | Some ws \<Rightarrow> ws)
                                          @ fs_words s)\<rparr>)
             else Inr g2)"

text \<open>The body of \<open>for i in range(1, len(segments))\<close>: \<open>p\<close> is \<open>segments[i - 1]\<close>, \<open>s\<close> is
  \<open>segments[i]\<close>; the state is \<open>(output, current_group)\<close>.\<close>

definition group_body ::
  "string \<Rightarrow> bool \<Rightarrow> final_segment \<Rightarrow> final_segment \<Rightarrow> group list \<times> group
   \<Rightarrow> py_exception + (group list \<times> group)"
where
  "group_body transcript_output_format group_segments p s st =
     (case st of (output, current_group) \<Rightarrow>
        (let time_gap = fs_start s - fs_end p
         in if fs_speaker s = fs_speaker p \<and> time_gap \<le> 2 \<and> group_segments then
              (case extend_group transcript_output_format current_group s of
                 Inl e \<Rightarrow> Inl e
               | Inr g \<Rightarrow> Inr (output, g))
            else Inr (output @ [current_group], new_group transcript_output_format s)))"

fun group_loop ::
  "string \<Rightarrow> bool \<Rightarrow> final_segment \<Rightarrow> final_segment list \<Rightarrow> group list \<times> group
   \<Rightarrow> py_exception + group list"
where
  "group_loop fmt group_segments p [] st = (case st of (output, current_group) \<Rightarrow>
     Inr (output @ [current_group]))"
| "group_loop fmt group_segments p (s # rest) st =
     (case group_body fmt group_segments p s st of
        Inl e \<Rightarrow> Inl e
      | Inr st' \<Rightarrow> group_loop fmt group_segments s rest st')"

text \<open>The stage on a non-empty \<open>segments\<close> list, seeded with \<open>segments[0]\<close>.\<close>

definition cleaning :: "string \<Rightarrow> bool \<Rightarrow> final_segment \<Rightarrow> final_segment list \<Rightarrow> py_exception + group list" where
  "cleaning fmt group_segments s0 rest =
     group_loop fmt group_segments s0 rest ([], new_group fmt s0)"

subsection \<open>The function\<close>

text \<open>\<open>detected_num_speakers\<close> is the size of the set of speaker labels.\<close>

definition detected_num_speakers :: "track list \<Rightarrow> nat" where
  "detected_num_speakers dl = length (remdups (map speaker dl))"

definition speech_to_text ::
  "engines \<Rightarrow> int \<Rightarrow> bool \<Rightarrow> string \<Rightarrow> py_exception + (group list \<times> nat \<times> string)"
where
  "speech_to_text en offset_seconds group_segments transcript_output_format =
     (let segs = map (segment_dict offset_seconds) (asr_segments en);
          dl = diarization en
      in case merging dl offset_seconds segs of
           Inl e \<Rightarrow> Inl e
         | Inr final_segments \<Rightarrow>
             (case final_segments of
                [] \<Rightarrow> Inr ([], detected_num_speakers dl, asr_language en)
              | s0 # rest \<Rightarrow>
                  (case cleaning transcript_output_format group_segments s0 rest of
                     Inl e \<Rightarrow> Inl e
                   | Inr out \<Rightarrow> Inr (out, detected_num_speakers dl, asr_language en))))"

section \<open>\<open>Predictor.setup\<close>, \<open>Predictor.predict\<close> and \<open>Notte.process\<close>\<close>


text \<open>The handler of \<open>predict\<close> (lines 167--169): \<open>except Exception as e: raise RuntimeError(...)\<close>.
  An exception that is not an \<open>Exception\<close> passes through.\<close>

definition predict_except :: "py_exception \<Rightarrow> py_exception" where
  "predict_except e =
     (if is_Exception e then RuntimeError ''Error Running inference with local model'' e else e)"

text \<open>\<open>predict\<close>: \<open>ext\<close> is the outcome of acquiring the audio and running the two engines,
  either an exception raised there or their results.\<close>

definition predict :: "(py_exception + engines) \<Rightarrow> bool \<Rightarrow> string \<Rightarrow> int \<Rightarrow> py_exception + Output" where
  "predict ext group_segments transcript_output_format offset_seconds =
     (case ext of
        Inl e \<Rightarrow> Inl (predict_except e)
      | Inr en \<Rightarrow>
          (case speech_to_text en offset_seconds group_segments transcript_output_format of
             Inl e \<Rightarrow> Inl (predict_except e)
           | Inr (segs, detected, detected_language) \<Rightarrow>
               Inr \<lparr>segments = segs, language = detected_language, num_speakers = detected\<rparr>))"



section \<open>Notions of the specification\<close>

text \<open>The Speaker Aligner's result for the words of one segment, started at a given cursor:
  one pair per word, with the turn of the overlap branch of \<open>while_speaker\<close> or \<open>None\<close>
  when the word is dropped. The source keeps no such pairs (a stored word has no speaker key);
  the turn is the one under the cursor when the word is appended.\<close>

fun alignment ::
  "track list \<Rightarrow> int \<Rightarrow> word list \<Rightarrow> nat \<Rightarrow> string option \<Rightarrow> (word \<times> track option) list"
where
  "alignment dl offset_seconds [] speaker_idx spk = []"
| "alignment dl offset_seconds (w # ws) speaker_idx spk =
     (case while_speaker dl (w_start w + real_of_int offset_seconds - margin)
             (w_end w + real_of_int offset_seconds + margin) speaker_idx spk of
        (speaker_idx', spk', m) \<Rightarrow> (w, m) # alignment dl offset_seconds ws speaker_idx' spk')"

text \<open>The retained (labeled) words: those with a turn.\<close>

fun retained :: "(word \<times> track option) list \<Rightarrow> (word \<times> track) list" where
  "retained [] = []"
| "retained ((w, None) # al) = retained al"
| "retained ((w, Some t) # al) = (w, t) # retained al"

text \<open>A retained word as it is stored in \<open>segment_words\<close>: its text stripped.\<close>

definition stored :: "word \<times> track \<Rightarrow> word" where
  "stored p = (fst p)\<lparr>w_word := py_strip (w_word (fst p))\<rparr>"

text \<open>The shape invariant, the separation of two adjacent groups, and the presence of the
  \<open>text\<close> key that \<open>+=\<close> needs.\<close>

definition shape_ok :: "string \<Rightarrow> group \<Rightarrow> bool" where
  "shape_ok fmt g = ((fmt = ''segments_only'' \<longrightarrow> g_words g = None) \<and>
                     (fmt = ''words_only'' \<longrightarrow> g_text g = None))"


definition has_text :: "string \<Rightarrow> group \<Rightarrow> bool" where
  "has_text fmt g = (fmt \<in> set [''segments_only'', ''both''] \<longrightarrow> g_text g \<noteq> None)"

text \<open>The words a group carries (none when the \<open>words\<close> key is absent).\<close>

definition group_word_set :: "group \<Rightarrow> word set" where
  "group_word_set g = (case g_words g of None \<Rightarrow> {} | Some ws \<Rightarrow> set ws)"

section \<open>Concrete inputs\<close>

text \<open>Small transcripts and diarizations on which the functions are evaluated below.\<close>

definition ex_turns_gap :: "track list" where
  "ex_turns_gap = [\<lparr>turn_start = 0, turn_end = 5, speaker = ''SPEAKER_00''\<rparr>,
                   \<lparr>turn_start = 20, turn_end = 30, speaker = ''SPEAKER_01''\<rparr>]"

definition ex_seg_leak :: asr_segment where
  "ex_seg_leak = \<lparr>as_avg_logprob = 0, as_start = 1, as_end = 8, as_text = '' hi there'',
     as_words = [\<lparr>aw_start = 1, aw_end = 2, aw_word = '' hi'', aw_probability = 1\<rparr>,
                 \<lparr>aw_start = 7, aw_end = 8, aw_word = '' there'', aw_probability = 1\<rparr>]\<rparr>"

definition ex_turns_adjacent :: "track list" where
  "ex_turns_adjacent = [\<lparr>turn_start = 0, turn_end = 5, speaker = ''SPEAKER_00''\<rparr>,
                        \<lparr>turn_start = 5, turn_end = 10, speaker = ''SPEAKER_01''\<rparr>]"

definition ex_seg_two_turns :: asr_segment where
  "ex_seg_two_turns = \<lparr>as_avg_logprob = 0, as_start = 1, as_end = 6, as_text = '' hi  yo'',
     as_words = [\<lparr>aw_start = 1, aw_end = 2, aw_word = '' hi '', aw_probability = 1\<rparr>,
                 \<lparr>aw_start = 26 / 5, aw_end = 6, aw_word = '' yo'', aw_probability = 1\<rparr>]\<rparr>"

definition ex_final_two_turns :: final_segment where
  "ex_final_two_turns = \<lparr>fs_avg_logprob = 0, fs_start = 1, fs_end = 6,
     fs_speaker = ''SPEAKER_01'', fs_text = ''hi yo'',
     fs_words = [\<lparr>w_start = 1, w_end = 2, w_word = ''hi'', w_probability = 1\<rparr>,
                 \<lparr>w_start = 26 / 5, w_end = 6, w_word = ''yo'', w_probability = 1\<rparr>]\<rparr>"

definition ex_engines_groups :: engines where
  "ex_engines_groups =
     \<lparr>asr_segments =
        [\<lparr>as_avg_logprob = 0, as_start = 0, as_end = 1, as_text = '' one'',
          as_words = [\<lparr>aw_start = 0, aw_end = 1, aw_word = '' one'', aw_probability = 1\<rparr>]\<rparr>,
         \<lparr>as_avg_logprob = 0, as_start = 5 / 2, as_end = 7 / 2, as_text = '' two'',
          as_words = [\<lparr>aw_start = 5 / 2, aw_end = 7 / 2, aw_word = '' two'', aw_probability = 1\<rparr>]\<rparr>,
         \<lparr>as_avg_logprob = 0, as_start = 6, as_end = 7, as_text = '' three'',
          as_words = [\<lparr>aw_start = 6, aw_end = 7, aw_word = '' three'', aw_probability = 1\<rparr>]\<rparr>],
      asr_language = ''en'',
      diarization = [\<lparr>turn_start = 0, turn_end = 10, speaker = ''SPEAKER_00''\<rparr>]\<rparr>"

definition ex_word_one :: word where
  "ex_word_one = \<lparr>w_start = 0, w_end = 1, w_word = ''one'', w_probability = 1\<rparr>"
definition ex_word_two :: word where
  "ex_word_two = \<lparr>w_start = 5 / 2, w_end = 7 / 2, w_word = ''two'', w_probability = 1\<rparr>"
definition ex_word_three :: word where
  "ex_word_three = \<lparr>w_start = 6, w_end = 7, w_word = ''three'', w_probability = 1\<rparr>"



definition ex_out_segments_only :: "group list" where
  "ex_out_segments_only =
     [\<lparr>g_start = 0, g_end = 7 / 2, g_speaker = ''SPEAKER_00'', g_avg_logprob = 0,
       g_text = Some ''one two'', g_words = None\<rparr>,
      \<lparr>g_start = 6, g_end = 7, g_speaker = ''SPEAKER_00'', g_avg_logprob = 0,
       g_text = Some ''three'', g_words = None\<rparr>]"

definition ex_out_words_only :: "group list" where
  "ex_out_words_only =
     [\<lparr>g_start = 0, g_end = 7 / 2, g_speaker = ''SPEAKER_00'', g_avg_logprob = 0,
       g_text = None, g_words = Some [ex_word_one, ex_word_two]\<rparr>,
      \<lparr>g_start = 6, g_end = 7, g_speaker = ''SPEAKER_00'', g_avg_logprob = 0,
       g_text = None, g_words = Some [ex_word_three]\<rparr>]"

definition ex_turn_late :: track where
  "ex_turn_late = \<lparr>turn_start = 41 / 2, turn_end = 23, speaker = ''SPEAKER_00''\<rparr>"

definition ex_engines_late :: engines where
  "ex_engines_late =
     \<lparr>asr_segments =
        [\<lparr>as_avg_logprob = 0, as_start = 1, as_end = 2, as_text = '' hi'',
          as_words = [\<lparr>aw_start = 1, aw_end = 2, aw_word = '' hi'', aw_probability = 1\<rparr>]\<rparr>],
      asr_language = ''en'',
      diarization = [ex_turn_late]\<rparr>"

definition ex_engines_no_turns :: engines where
  "ex_engines_no_turns =
     \<lparr>asr_segments =
        [\<lparr>as_avg_logprob = 0, as_start = 1, as_end = 2, as_text = '' hi'',
          as_words = [\<lparr>aw_start = 1, aw_end = 2, aw_word = '' hi'', aw_probability = 1\<rparr>]\<rparr>],
      asr_language = ''en'',
      diarization = []\<rparr>"

definition ex_word_late :: word where
  "ex_word_late = \<lparr>w_start = 11, w_end = 12, w_word = ''hi'', w_probability = 1\<rparr>"

definition ex_out_late :: "group list" where
  "ex_out_late =
     [\<lparr>g_start = 11, g_end = 12, g_speaker = ''SPEAKER_00'', g_avg_logprob = 0,
       g_text = Some ''hi'', g_words = Some [ex_word_late]\<rparr>]"



section \<open>The cleaning stage\<close>

lemma new_group_shape: "shape_ok fmt (new_group fmt s)"
  by (simp add: shape_ok_def new_group_def)

lemma new_group_has_text: "has_text fmt (new_group fmt s)"
  by (simp add: has_text_def new_group_def)

lemma extend_group_shape:
  "extend_group fmt cur s = Inr g \<Longrightarrow> shape_ok fmt cur \<Longrightarrow> shape_ok fmt g"
  by (auto simp: extend_group_def shape_ok_def Let_def split: if_splits option.splits)


lemma extend_group_returns:
  "has_text fmt cur \<Longrightarrow> \<exists>g. extend_group fmt cur s = Inr g \<and> has_text fmt g"
  by (auto simp: extend_group_def has_text_def Let_def split: option.splits)


lemma group_loop_shape:
  "group_loop fmt gs p rest (out, cur) = Inr res \<Longrightarrow> \<forall>g\<in>set out. shape_ok fmt g \<Longrightarrow>
   shape_ok fmt cur \<Longrightarrow> g \<in> set res \<Longrightarrow> shape_ok fmt g"
proof (induction rest arbitrary: p out cur)
  case Nil
  then show ?case by auto
next
  case (Cons s rest)
  show ?case
  proof (cases "fs_speaker s = fs_speaker p \<and> fs_start s - fs_end p \<le> 2 \<and> gs")
    case True
    with Cons.prems(1) obtain g' where e: "extend_group fmt cur s = Inr g'"
      and l: "group_loop fmt gs s rest (out, g') = Inr res"
      by (auto simp: group_body_def split: sum.splits)
    from extend_group_shape[OF e Cons.prems(3)] have "shape_ok fmt g'" .
    from Cons.IH[OF l Cons.prems(2) this Cons.prems(4)] show ?thesis .
  next
    case False
    with Cons.prems(1) have l: "group_loop fmt gs s rest (out @ [cur], new_group fmt s) = Inr res"
      by (auto simp: group_body_def)
    have "\<forall>g\<in>set (out @ [cur]). shape_ok fmt g" using Cons.prems(2,3) by auto
    from Cons.IH[OF l this new_group_shape Cons.prems(4)] show ?thesis .
  qed
qed

lemma group_loop_returns:
  "has_text fmt cur \<Longrightarrow> \<exists>res. group_loop fmt gs p rest (out, cur) = Inr res"
proof (induction rest arbitrary: p out cur)
  case Nil
  then show ?case by simp
next
  case (Cons s rest)
  show ?case
  proof (cases "fs_speaker s = fs_speaker p \<and> fs_start s - fs_end p \<le> 2 \<and> gs")
    case True
    from extend_group_returns[OF Cons.prems, of s] obtain g' where
      e: "extend_group fmt cur s = Inr g'" and h: "has_text fmt g'" by blast
    from Cons.IH[OF h, of s out] show ?thesis using True e by (simp add: group_body_def)
  next
    case False
    from Cons.IH[OF new_group_has_text, of s "out @ [cur]" s] show ?thesis
      using False by (auto simp: group_body_def)
  qed
qed




section \<open>The merging stage\<close>

lemma while_speaker_Some:
  "while_speaker dl ws we idx spk = (idx', spk', Some t) \<Longrightarrow>
   t \<in> set dl \<and> turn_start t \<le> we \<and> turn_end t \<ge> ws \<and> spk' = Some (speaker t)"
proof (induction dl ws we idx spk rule: while_speaker.induct)
  case (1 dl ws we idx spk)
  show ?case
  proof (cases "idx < length dl")
    case False
    with "1.prems" show ?thesis by (simp add: while_speaker.simps)
  next
    case True
    show ?thesis
    proof (cases "turn_start (dl ! idx) \<le> we \<and> turn_end (dl ! idx) \<ge> ws")
      case ov: True
      with True "1.prems" show ?thesis
        by (auto simp: while_speaker.simps[of dl ws we idx] Let_def)
    next
      case nov: False
      show ?thesis
      proof (cases "turn_end (dl ! idx) < ws")
        case sk: True
        with True nov "1.prems" have
          "while_speaker dl ws we (idx + 1) (Some (speaker (dl ! idx))) = (idx', spk', Some t)"
          by (simp add: while_speaker.simps[of dl ws we idx] Let_def)
        from "1.IH"[OF True refl refl nov sk this] show ?thesis .
      next
        case False
        with True nov "1.prems" show ?thesis
          by (simp add: while_speaker.simps[of dl ws we idx] Let_def)
      qed
    qed
  qed
qed

lemma while_speaker_bound:
  "while_speaker dl ws we idx spk = (idx', spk', m) \<Longrightarrow> spk \<noteq> None \<Longrightarrow> spk' \<noteq> None"
proof (induction dl ws we idx spk rule: while_speaker.induct)
  case (1 dl ws we idx spk)
  show ?case
  proof (cases "idx < length dl")
    case False
    with "1.prems" show ?thesis by (simp add: while_speaker.simps)
  next
    case True
    show ?thesis
    proof (cases "turn_start (dl ! idx) \<le> we \<and> turn_end (dl ! idx) \<ge> ws")
      case ov: True
      with True "1.prems" show ?thesis
        by (auto simp: while_speaker.simps[of dl ws we idx] Let_def)
    next
      case nov: False
      show ?thesis
      proof (cases "turn_end (dl ! idx) < ws")
        case sk: True
        with True nov "1.prems" have
          "while_speaker dl ws we (idx + 1) (Some (speaker (dl ! idx))) = (idx', spk', m)"
          by (simp add: while_speaker.simps[of dl ws we idx] Let_def)
        from "1.IH"[OF True refl refl nov sk this] show ?thesis by simp
      next
        case False
        with True nov "1.prems" show ?thesis
          by (auto simp: while_speaker.simps[of dl ws we idx] Let_def)
      qed
    qed
  qed
qed

lemma word_loop_accumulators:
  "snd (snd (word_loop dl off ws idx spk st sw)) =
     (st @ map (w_word \<circ> fst) (retained (alignment dl off ws idx spk)),
      sw @ map stored (retained (alignment dl off ws idx spk)))"
proof (induction ws arbitrary: idx spk st sw)
  case Nil
  show ?case by simp
next
  case (Cons w ws)
  obtain i' s' m where e: "while_speaker dl (w_start w + real_of_int off - margin)
             (w_end w + real_of_int off + margin) idx spk = (i', s', m)"
    by (metis prod_cases3)
  show ?case
  proof (cases m)
    case None
    with e Cons.IH[of i' s' st sw] show ?thesis by (simp add: Let_def)
  next
    case (Some t)
    with e Cons.IH[of i' s' "st @ [w_word w]" "sw @ [w\<lparr>w_word := py_strip (w_word w)\<rparr>]"]
    show ?thesis by (simp add: Let_def stored_def)
  qed
qed

lemma word_loop_speaker_bound:
  "spk \<noteq> None \<Longrightarrow> fst (snd (word_loop dl off ws idx spk st sw)) \<noteq> None"
proof (induction ws arbitrary: idx spk st sw)
  case Nil
  then show ?case by simp
next
  case (Cons w ws)
  obtain i' s' m where e: "while_speaker dl (w_start w + real_of_int off - margin)
             (w_end w + real_of_int off + margin) idx spk = (i', s', m)"
    by (metis prod_cases3)
  from while_speaker_bound[OF e Cons.prems] have b: "s' \<noteq> None" .
  show ?case
  proof (cases m)
    case None
    with e Cons.IH[OF b, of i' st sw] show ?thesis by (simp add: Let_def)
  next
    case (Some t)
    with e Cons.IH[OF b, of i' "st @ [w_word w]" "sw @ [w\<lparr>w_word := py_strip (w_word w)\<rparr>]"]
    show ?thesis by (simp add: Let_def)
  qed
qed

lemma word_loop_speaker_retained:
  "retained (alignment dl off ws idx spk) \<noteq> [] \<Longrightarrow>
   fst (snd (word_loop dl off ws idx spk st sw)) \<noteq> None"
proof (induction ws arbitrary: idx spk st sw)
  case Nil
  then show ?case by simp
next
  case (Cons w ws)
  obtain i' s' m where e: "while_speaker dl (w_start w + real_of_int off - margin)
             (w_end w + real_of_int off + margin) idx spk = (i', s', m)"
    by (metis prod_cases3)
  show ?case
  proof (cases m)
    case None
    with e Cons.prems have "retained (alignment dl off ws i' s') \<noteq> []" by simp
    from Cons.IH[OF this, of st sw] None e show ?thesis by (simp add: Let_def)
  next
    case (Some t)
    with e while_speaker_Some have "s' \<noteq> None" by blast
    from word_loop_speaker_bound[OF this, of dl off ws i' "st @ [w_word w]" "sw @ [w\<lparr>w_word := py_strip (w_word w)\<rparr>]"]
    show ?thesis using Some e by (simp add: Let_def)
  qed
qed

lemma word_loop_speaker_last:
  "ws \<noteq> [] \<Longrightarrow> snd (last (alignment dl off ws idx spk)) = Some t \<Longrightarrow>
   fst (snd (word_loop dl off ws idx spk st sw)) = Some (speaker t)
   \<and> snd (last (retained (alignment dl off ws idx spk))) = t
   \<and> retained (alignment dl off ws idx spk) \<noteq> []"
proof (induction ws arbitrary: idx spk st sw)
  case Nil
  then show ?case by simp
next
  case (Cons w ws)
  obtain i' s' m where e: "while_speaker dl (w_start w + real_of_int off - margin)
             (w_end w + real_of_int off + margin) idx spk = (i', s', m)"
    by (metis prod_cases3)
  show ?case
  proof (cases "ws = []")
    case True
    with Cons.prems e have m: "m = Some t" by simp
    with e while_speaker_Some have "s' = Some (speaker t)" by blast
    with True e m show ?thesis by (simp add: Let_def)
  next
    case False
    then have ne: "alignment dl off ws i' s' \<noteq> []" by (cases ws) (auto split: prod.splits)
    with Cons.prems e have l: "snd (last (alignment dl off ws i' s')) = Some t" by simp
    note ih = Cons.IH[OF False l]
    show ?thesis
    proof (cases m)
      case None
      with e ih[of st sw] show ?thesis by (simp add: Let_def)
    next
      case (Some t')
      with e ih[of "st @ [w_word w]" "sw @ [w\<lparr>w_word := py_strip (w_word w)\<rparr>]"]
      show ?thesis by (simp add: Let_def)
    qed
  qed
qed

lemma while_speaker_matches_iff:
  "snd (snd (while_speaker dl ws we idx spk)) = Some t \<longleftrightarrow>
     (\<exists>j. idx \<le> j \<and> j < length dl \<and> dl ! j = t \<and>
          (\<forall>k. idx \<le> k \<and> k < j \<longrightarrow> turn_end (dl ! k) < ws) \<and>
          turn_start t \<le> we \<and> turn_end t \<ge> ws)"
proof (induction dl ws we idx spk rule: while_speaker.induct)
  case (1 dl ws we idx spk)
  let ?R = "\<lambda>i. \<exists>j. i \<le> j \<and> j < length dl \<and> dl ! j = t \<and>
          (\<forall>k. i \<le> k \<and> k < j \<longrightarrow> turn_end (dl ! k) < ws) \<and>
          turn_start t \<le> we \<and> turn_end t \<ge> ws"
  show ?case
  proof (cases "idx < length dl")
    case False
    then show ?thesis by (auto simp: while_speaker.simps[of dl ws we idx])
  next
    case True
    show ?thesis
    proof (cases "turn_start (dl ! idx) \<le> we \<and> turn_end (dl ! idx) \<ge> ws")
      case ov: True
      have "?R idx \<longleftrightarrow> dl ! idx = t"
      proof
        assume "?R idx"
        then obtain j where j: "idx \<le> j" "j < length dl" "dl ! j = t"
          "\<forall>k. idx \<le> k \<and> k < j \<longrightarrow> turn_end (dl ! k) < ws" by blast
        have "j = idx"
        proof (rule ccontr)
          assume "j \<noteq> idx"
          with j(1) have "idx < j" by simp
          with j(4) have "turn_end (dl ! idx) < ws" by simp
          with ov show False by simp
        qed
        with j(3) show "dl ! idx = t" by simp
      next
        assume "dl ! idx = t"
        with True ov show "?R idx" by (intro exI[of _ idx]) auto
      qed
      with True ov show ?thesis
        by (auto simp: while_speaker.simps[of dl ws we idx] Let_def)
    next
      case nov: False
      show ?thesis
      proof (cases "turn_end (dl ! idx) < ws")
        case sk: True
        have "?R idx \<longleftrightarrow> ?R (idx + 1)"
        proof
          assume "?R idx"
          then obtain j where j: "idx \<le> j" "j < length dl" "dl ! j = t"
            "\<forall>k. idx \<le> k \<and> k < j \<longrightarrow> turn_end (dl ! k) < ws"
            "turn_start t \<le> we" "turn_end t \<ge> ws" by blast
          have "j \<noteq> idx" using j(3,6) sk by auto
          with j(1) have "idx + 1 \<le> j" by simp
          with j show "?R (idx + 1)" by (intro exI[of _ j]) auto
        next
          assume "?R (idx + 1)"
          then obtain j where j: "idx + 1 \<le> j" "j < length dl" "dl ! j = t"
            "\<forall>k. idx + 1 \<le> k \<and> k < j \<longrightarrow> turn_end (dl ! k) < ws"
            "turn_start t \<le> we" "turn_end t \<ge> ws" by blast
          have "\<forall>k. idx \<le> k \<and> k < j \<longrightarrow> turn_end (dl ! k) < ws"
          proof (intro allI impI)
            fix k assume k: "idx \<le> k \<and> k < j"
            show "turn_end (dl ! k) < ws"
            proof (cases "k = idx")
              case True
              with sk show ?thesis by simp
            next
              case False
              with k have "idx + 1 \<le> k \<and> k < j" by simp
              with j(4) show ?thesis by blast
            qed
          qed
          with j show "?R idx" by (intro exI[of _ j]) auto
        qed
        moreover have "while_speaker dl ws we idx spk =
            while_speaker dl ws we (idx + 1) (Some (speaker (dl ! idx)))"
          using True nov sk by (simp add: while_speaker.simps[of dl ws we idx] Let_def)
        ultimately show ?thesis using "1.IH"[OF True refl refl nov sk] by simp
      next
        case nsk: False
        have "\<not> ?R idx"
        proof
          assume "?R idx"
          then obtain j where j: "idx \<le> j" "j < length dl" "dl ! j = t"
            "\<forall>k. idx \<le> k \<and> k < j \<longrightarrow> turn_end (dl ! k) < ws"
            "turn_start t \<le> we" "turn_end t \<ge> ws" by blast
          show False
          proof (cases "j = idx")
            case True
            with j nov show False by auto
          next
            case False
            with j(1) have "idx < j" by simp
            with j(4) nsk show False by simp
          qed
        qed
        with True nov nsk show ?thesis
          by (simp add: while_speaker.simps[of dl ws we idx] Let_def)
      qed
    qed
  qed
qed

lemma segment_body_Some:
  assumes "segment_body dl off seg idx spk = Inr (idx', spk', Some ls)"
  shows "retained (alignment dl off (seg_words seg) idx spk) \<noteq> []"
    and "fs_text ls = py_strip (re_sub_two_spaces (concat (map (w_word \<circ> fst)
           (retained (alignment dl off (seg_words seg) idx spk)))))"
    and "fs_words ls = map stored (retained (alignment dl off (seg_words seg) idx spk))"
    and "Some (fs_speaker ls) = fst (snd (word_loop dl off (seg_words seg) idx spk [] []))"
    and "fs_start ls = seg_start seg" and "fs_end ls = seg_end seg"
    and "fs_avg_logprob ls = seg_avg_logprob seg"
proof -
  obtain i s st sw where e: "word_loop dl off (seg_words seg) idx spk [] [] = (i, s, st, sw)"
    by (metis prod_cases4)
  from word_loop_accumulators[of dl off "seg_words seg" idx spk "[]" "[]"] e
  have acc: "st = map (w_word \<circ> fst) (retained (alignment dl off (seg_words seg) idx spk))"
    "sw = map stored (retained (alignment dl off (seg_words seg) idx spk))" by simp_all
  from assms e have ne: "st \<noteq> []"
    by (auto simp: segment_body_def Let_def split: if_splits)
  with assms e obtain sp where sp: "s = Some sp" and
    ls: "ls = \<lparr>fs_avg_logprob = seg_avg_logprob seg,
        fs_start = seg_start seg + real_of_int off - real_of_int off,
        fs_end = seg_end seg + real_of_int off - real_of_int off,
        fs_speaker = sp, fs_text = py_strip (re_sub_two_spaces (concat st)), fs_words = sw\<rparr>"
    by (auto simp: segment_body_def Let_def split: option.splits)
  from ne acc show "retained (alignment dl off (seg_words seg) idx spk) \<noteq> []" by auto
  from ls acc show "fs_text ls = py_strip (re_sub_two_spaces (concat (map (w_word \<circ> fst)
           (retained (alignment dl off (seg_words seg) idx spk)))))" by simp
  from ls acc show "fs_words ls = map stored (retained (alignment dl off (seg_words seg) idx spk))"
    by simp
  from ls sp e show "Some (fs_speaker ls) = fst (snd (word_loop dl off (seg_words seg) idx spk [] []))"
    by simp
  from ls show "fs_start ls = seg_start seg" "fs_end ls = seg_end seg"
    "fs_avg_logprob ls = seg_avg_logprob seg" by simp_all
qed

lemma segment_body_returns:
  "\<exists>idx' spk' r. segment_body dl off seg idx spk = Inr (idx', spk', r) \<and>
     (r = None \<longleftrightarrow> retained (alignment dl off (seg_words seg) idx spk) = [])"
proof -
  obtain i s st sw where e: "word_loop dl off (seg_words seg) idx spk [] [] = (i, s, st, sw)"
    by (metis prod_cases4)
  from word_loop_accumulators[of dl off "seg_words seg" idx spk "[]" "[]"] e
  have acc: "st = map (w_word \<circ> fst) (retained (alignment dl off (seg_words seg) idx spk))"
    by simp
  show ?thesis
  proof (cases "st = []")
    case True
    with e acc show ?thesis by (simp add: segment_body_def)
  next
    case False
    with acc have "retained (alignment dl off (seg_words seg) idx spk) \<noteq> []" by auto
    from word_loop_speaker_retained[OF this, of "[]" "[]"] e obtain sp where "s = Some sp" by auto
    with e False acc show ?thesis by (simp add: segment_body_def Let_def)
  qed
qed

lemma segment_loop_returns:
  "\<exists>fs. segment_loop dl off segs idx spk fin = Inr fs"
proof (induction segs arbitrary: idx spk fin)
  case Nil
  show ?case by simp
next
  case (Cons seg segs)
  from segment_body_returns[of dl off seg idx spk] obtain i s r where
    e: "segment_body dl off seg idx spk = Inr (i, s, r)" by blast
  show ?case
  proof (cases r)
    case None
    with e Cons.IH[of i s fin] show ?thesis by simp
  next
    case (Some ls)
    with e Cons.IH[of i s "fin @ [ls]"] show ?thesis by simp
  qed
qed

lemma segment_loop_provenance:
  "segment_loop dl off segs idx spk fin = Inr fs \<Longrightarrow> ls \<in> set fs \<Longrightarrow>
   ls \<in> set fin \<or> (\<exists>seg\<in>set segs. \<exists>i s i' s'. segment_body dl off seg i s = Inr (i', s', Some ls))"
proof (induction segs arbitrary: idx spk fin)
  case Nil
  then show ?case by simp
next
  case (Cons seg segs)
  from segment_body_returns[of dl off seg idx spk] obtain i s r where
    e: "segment_body dl off seg idx spk = Inr (i, s, r)" by blast
  show ?case
  proof (cases r)
    case None
    with e Cons.prems(1) have "segment_loop dl off segs i s fin = Inr fs" by simp
    from Cons.IH[OF this Cons.prems(2)] show ?thesis by auto
  next
    case (Some n)
    with e Cons.prems(1) have "segment_loop dl off segs i s (fin @ [n]) = Inr fs" by simp
    from Cons.IH[OF this Cons.prems(2)] show ?thesis
    proof (elim disjE)
      assume "ls \<in> set (fin @ [n])"
      then show ?thesis
      proof (cases "ls = n")
        case True
        with e Some show ?thesis by auto
      next
        case False
        with \<open>ls \<in> set (fin @ [n])\<close> show ?thesis by simp
      qed
    next
      assume "\<exists>seg\<in>set segs. \<exists>i s i' s'. segment_body dl off seg i s = Inr (i', s', Some ls)"
      then show ?thesis by auto
    qed
  qed
qed

lemma alignment_no_overlap:
  "\<forall>w\<in>set ws. \<forall>t\<in>set dl. \<not> (turn_start t \<le> w_end w + real_of_int off + margin \<and>
        turn_end t \<ge> w_start w + real_of_int off - margin) \<Longrightarrow>
   retained (alignment dl off ws idx spk) = []"
proof (induction ws arbitrary: idx spk)
  case Nil
  show ?case by simp
next
  case (Cons w ws)
  obtain i' s' m where e: "while_speaker dl (w_start w + real_of_int off - margin)
             (w_end w + real_of_int off + margin) idx spk = (i', s', m)"
    by (metis prod_cases3)
  have "m = None"
  proof (cases m)
    case (Some t)
    with e have "while_speaker dl (w_start w + real_of_int off - margin)
             (w_end w + real_of_int off + margin) idx spk = (i', s', Some t)" by simp
    from while_speaker_Some[OF this] have "t \<in> set dl"
      "turn_start t \<le> w_end w + real_of_int off + margin"
      "turn_end t \<ge> w_start w + real_of_int off - margin" by simp_all
    moreover from Cons.prems have "\<forall>t\<in>set dl.
      \<not> (turn_start t \<le> w_end w + real_of_int off + margin \<and>
         turn_end t \<ge> w_start w + real_of_int off - margin)" by simp
    ultimately show ?thesis by blast
  qed simp
  with e Cons.IH[of i' s'] Cons.prems show ?case by simp
qed

lemma segment_loop_no_overlap:
  "\<forall>seg\<in>set segs. \<forall>w\<in>set (seg_words seg). \<forall>t\<in>set dl.
      \<not> (turn_start t \<le> w_end w + real_of_int off + margin \<and>
         turn_end t \<ge> w_start w + real_of_int off - margin) \<Longrightarrow>
   segment_loop dl off segs idx spk fin = Inr fin"
proof (induction segs arbitrary: idx spk)
  case Nil
  show ?case by simp
next
  case (Cons seg segs)
  from Cons.prems have "retained (alignment dl off (seg_words seg) idx spk) = []"
    by (intro alignment_no_overlap) simp
  with segment_body_returns[of dl off seg idx spk] obtain i s where
    "segment_body dl off seg idx spk = Inr (i, s, None)" by auto
  with Cons.IH[of i s] Cons.prems show ?case by simp
qed

lemma cleaning_returns: "\<exists>out. cleaning fmt gs s0 rest = Inr out"
  unfolding cleaning_def by (rule group_loop_returns[OF new_group_has_text])

lemma speech_to_text_returns:
  "\<exists>out. speech_to_text en off gs fmt =
     Inr (out, detected_num_speakers (diarization en), asr_language en)"
proof -
  obtain fs where m: "merging (diarization en) off (map (segment_dict off) (asr_segments en)) = Inr fs"
    unfolding merging_def using segment_loop_returns by blast
  show ?thesis
  proof (cases fs)
    case Nil
    with m show ?thesis by (simp add: speech_to_text_def)
  next
    case (Cons s0 rest)
    from cleaning_returns[of fmt gs s0 rest] obtain out where "cleaning fmt gs s0 rest = Inr out" ..
    with m Cons show ?thesis by (simp add: speech_to_text_def)
  qed
qed

lemma merging_no_overlap:
  assumes "\<forall>s\<in>set (asr_segments en). \<forall>aw\<in>set (as_words s). \<forall>t\<in>set (diarization en).
          \<not> (turn_start t \<le> aw_end aw + 2 * real_of_int off + 1 / 10 \<and>
             turn_end t \<ge> aw_start aw + 2 * real_of_int off - 1 / 10)"
  shows "merging (diarization en) off (map (segment_dict off) (asr_segments en)) = Inr []"
  unfolding merging_def
proof (rule segment_loop_no_overlap, intro ballI)
  fix seg w t
  assume seg: "seg \<in> set (map (segment_dict off) (asr_segments en))"
    and w: "w \<in> set (seg_words seg)" and t: "t \<in> set (diarization en)"
  from seg obtain s where s: "s \<in> set (asr_segments en)" "seg = segment_dict off s" by auto
  with w obtain aw where aw: "aw \<in> set (as_words s)" "w = word_dict off aw"
    by (auto simp: segment_dict_def)
  have e: "w_end w + real_of_int off + margin = aw_end aw + 2 * real_of_int off + 1 / 10"
    "w_start w + real_of_int off - margin = aw_start aw + 2 * real_of_int off - 1 / 10"
    by (simp_all add: aw(2) word_dict_def margin_def)
  from assms s(1) aw(1) t have
    "\<not> (turn_start t \<le> aw_end aw + 2 * real_of_int off + 1 / 10 \<and>
        turn_end t \<ge> aw_start aw + 2 * real_of_int off - 1 / 10)" by blast
  then show "\<not> (turn_start t \<le> w_end w + real_of_int off + margin \<and>
        w_start w + real_of_int off - margin \<le> turn_end t)"
    unfolding e .
qed

lemma predict_of_empty_merging:
  assumes "merging (diarization en) off (map (segment_dict off) (asr_segments en)) = Inr []"
  shows "predict (Inr en) gs fmt off =
     Inr \<lparr>segments = [], language = asr_language en,
          num_speakers = detected_num_speakers (diarization en)\<rparr>"
  using assms by (simp add: predict_def speech_to_text_def)

lemma retained_overlap:
  "(w, t) \<in> set (retained (alignment dl off ws idx spk)) \<Longrightarrow>
   w \<in> set ws \<and> t \<in> set dl \<and> turn_start t \<le> w_end w + real_of_int off + margin \<and>
   turn_end t \<ge> w_start w + real_of_int off - margin"
proof (induction ws arbitrary: idx spk)
  case Nil
  then show ?case by simp
next
  case (Cons a ws)
  obtain i' s' m where e: "while_speaker dl (w_start a + real_of_int off - margin)
             (w_end a + real_of_int off + margin) idx spk = (i', s', m)"
    by (metis prod_cases3)
  show ?case
  proof (cases m)
    case None
    with e Cons.prems have "(w, t) \<in> set (retained (alignment dl off ws i' s'))" by simp
    from Cons.IH[OF this] show ?thesis by simp
  next
    case (Some t')
    with e Cons.prems have "(w, t) = (a, t') \<or> (w, t) \<in> set (retained (alignment dl off ws i' s'))"
      by simp
    then show ?thesis
    proof
      assume "(w, t) = (a, t')"
      with while_speaker_Some[of dl _ _ idx spk i' s' t'] e Some show ?thesis by simp
    next
      assume "(w, t) \<in> set (retained (alignment dl off ws i' s'))"
      from Cons.IH[OF this] show ?thesis by simp
    qed
  qed
qed

lemma extend_group_word_set:
  "extend_group fmt cur s = Inr g \<Longrightarrow> group_word_set g \<subseteq> group_word_set cur \<union> set (fs_words s)"
  by (auto simp: extend_group_def group_word_set_def Let_def split: if_splits option.splits)

lemma new_group_word_set: "group_word_set (new_group fmt s) \<subseteq> set (fs_words s)"
  by (simp add: new_group_def group_word_set_def)

lemma group_loop_word_set:
  "group_loop fmt gs p rest (out, cur) = Inr res \<Longrightarrow> g \<in> set res \<Longrightarrow> x \<in> group_word_set g \<Longrightarrow>
   x \<in> (\<Union>g'\<in>set out. group_word_set g') \<union> group_word_set cur \<union> (\<Union>s\<in>set rest. set (fs_words s))"
proof (induction rest arbitrary: p out cur)
  case Nil
  then show ?case by auto
next
  case (Cons s rest)
  show ?case
  proof (cases "fs_speaker s = fs_speaker p \<and> fs_start s - fs_end p \<le> 2 \<and> gs")
    case True
    with Cons.prems(1) obtain g' where e: "extend_group fmt cur s = Inr g'"
      and l: "group_loop fmt gs s rest (out, g') = Inr res"
      by (auto simp: group_body_def split: sum.splits)
    from Cons.IH[OF l Cons.prems(2,3)] extend_group_word_set[OF e] show ?thesis by auto
  next
    case False
    with Cons.prems(1) have l: "group_loop fmt gs s rest (out @ [cur], new_group fmt s) = Inr res"
      by (auto simp: group_body_def)
    from Cons.IH[OF l Cons.prems(2,3)] new_group_word_set[of fmt s] show ?thesis by auto
  qed
qed

lemma output_words_overlap_without_offset:
  assumes "speech_to_text en 0 gs fmt = Inr (out, n, l)" and "g \<in> set out"
    and "g_words g = Some wl" and "x \<in> set wl"
  shows "\<exists>t\<in>set (diarization en). turn_start t \<le> w_end x + 1 / 10 \<and>
           turn_end t \<ge> w_start x - 1 / 10"
proof -
  from assms(1) obtain fs where m: "merging (diarization en) 0
      (map (segment_dict 0) (asr_segments en)) = Inr fs"
    by (auto simp: speech_to_text_def Let_def split: sum.splits)
  from assms(1,2) m obtain s0 rest where fs: "fs = s0 # rest"
    and c: "cleaning fmt gs s0 rest = Inr out"
    by (cases fs) (auto simp: speech_to_text_def Let_def split: sum.splits)
  from assms(3,4) have "x \<in> group_word_set g" by (simp add: group_word_set_def)
  with group_loop_word_set[OF c[unfolded cleaning_def] assms(2), of x]
    new_group_word_set[of fmt s0]
  obtain ls where ls: "ls \<in> set fs" "x \<in> set (fs_words ls)" unfolding fs by auto
  from segment_loop_provenance[OF m[unfolded merging_def] ls(1)]
  obtain seg i s i' s' where
    b: "segment_body (diarization en) 0 seg i s = Inr (i', s', Some ls)" by auto
  from segment_body_Some(3)[OF b] ls(2) obtain w t where
    r: "(w, t) \<in> set (retained (alignment (diarization en) 0 (seg_words seg) i s))"
    and x: "x = stored (w, t)" by auto
  from retained_overlap[OF r] x show ?thesis
    by (intro bexI[of _ t]) (simp_all add: stored_def margin_def)
qed

section \<open>Evaluations on the concrete inputs\<close>


lemma ex_groups_segments_only:
  "speech_to_text ex_engines_groups 0 True ''segments_only'' = Inr (ex_out_segments_only, 1, ''en'')"
  by code_simp

lemma ex_groups_words_only:
  "speech_to_text ex_engines_groups 0 True ''words_only'' = Inr (ex_out_words_only, 1, ''en'')"
  by code_simp


lemma ex_late_offset_10:
  "speech_to_text ex_engines_late 10 True ''both'' = Inr (ex_out_late, 1, ''en'')"
  by code_simp

lemma ex_late_offset_0:
  "speech_to_text ex_engines_late 0 True ''both'' = Inr ([], 1, ''en'')"
  by code_simp

section \<open>The claims\<close>

text \<open>Claim C1 (the speaker of a final segment is the speaker of its last retained word),
  evaluated on a segment whose first word lies in the turn of \<open>SPEAKER_00\<close> and whose second
  word falls in the silence before the turn of \<open>SPEAKER_01\<close>. Only the first word is retained,
  from the turn of \<open>SPEAKER_00\<close>; the scan for the second word moves the cursor to the next turn,
  which rebinds \<open>speaker\<close>, and the segment is labelled \<open>SPEAKER_01\<close>.\<close>

theorem speaker_leak_after_last_retained_word:
  "merging ex_turns_gap 0 [segment_dict 0 ex_seg_leak] =
     Inr [\<lparr>fs_avg_logprob = 0, fs_start = 1, fs_end = 8, fs_speaker = ''SPEAKER_01'',
           fs_text = ''hi'',
           fs_words = [\<lparr>w_start = 1, w_end = 2, w_word = ''hi'', w_probability = 1\<rparr>]\<rparr>]
   \<and> map (\<lambda>p. (w_word (fst p), speaker (snd p)))
        (retained (alignment ex_turns_gap 0 (seg_words (segment_dict 0 ex_seg_leak)) 0 None))
     = [('' hi'', ''SPEAKER_00'')]"
  by code_simp

text \<open>Claim C2 (every word of the output was assigned from a turn that overlaps the word's
  interval widened by 0.1 s), evaluated with \<open>offset_seconds = 10\<close>: the word spoken at 1--2 s is
  stored at 11--12 s and matched with the window 20.9--22.1 s, so it is retained from the only
  turn, at 20.5--23 s; that turn overlaps neither the stored interval widened by 0.1 s nor the
  spoken one.\<close>

theorem offset_word_without_overlapping_turn:
  "speech_to_text ex_engines_late 10 True ''both'' = Inr (ex_out_late, 1, ''en'') \<and>
   g_words (ex_out_late ! 0) = Some [ex_word_late] \<and>
   diarization ex_engines_late = [ex_turn_late] \<and>
   \<not> (turn_start ex_turn_late \<le> w_end ex_word_late + 1 / 10 \<and>
      turn_end ex_turn_late \<ge> w_start ex_word_late - 1 / 10) \<and>
   \<not> (turn_start ex_turn_late \<le> 2 + 1 / 10 \<and> turn_end ex_turn_late \<ge> 1 - 1 / 10)"
  by code_simp



text \<open>Claim C4. When no final segment survives the merge, \<open>predict\<close> returns (it does not
  raise) an \<open>Output\<close> with no group, the detected language and the number of distinct
  speaker labels of the diarization. This is the case when no turn overlaps the window of any
  word, and in particular when there is no turn at all, where the speaker count is 0.\<close>

theorem empty_result_is_returned:
  "(merging (diarization en) off (map (segment_dict off) (asr_segments en)) = Inr [] \<longrightarrow>
      predict (Inr en) gs fmt off =
        Inr \<lparr>segments = [], language = asr_language en,
             num_speakers = detected_num_speakers (diarization en)\<rparr>) \<and>
   ((\<forall>s\<in>set (asr_segments en). \<forall>aw\<in>set (as_words s). \<forall>t\<in>set (diarization en).
          \<not> (turn_start t \<le> aw_end aw + 2 * real_of_int off + 1 / 10 \<and>
             turn_end t \<ge> aw_start aw + 2 * real_of_int off - 1 / 10)) \<longrightarrow>
      predict (Inr en) gs fmt off =
        Inr \<lparr>segments = [], language = asr_language en,
             num_speakers = detected_num_speakers (diarization en)\<rparr>) \<and>
   (diarization en = [] \<longrightarrow>
      predict (Inr en) gs fmt off =
        Inr \<lparr>segments = [], language = asr_language en, num_speakers = 0\<rparr>)"
proof (intro conjI impI)
  assume "merging (diarization en) off (map (segment_dict off) (asr_segments en)) = Inr []"
  then show "predict (Inr en) gs fmt off =
        Inr \<lparr>segments = [], language = asr_language en,
             num_speakers = detected_num_speakers (diarization en)\<rparr>"
    by (rule predict_of_empty_merging)
next
  assume "\<forall>s\<in>set (asr_segments en). \<forall>aw\<in>set (as_words s). \<forall>t\<in>set (diarization en).
          \<not> (turn_start t \<le> aw_end aw + 2 * real_of_int off + 1 / 10 \<and>
             turn_end t \<ge> aw_start aw + 2 * real_of_int off - 1 / 10)"
  then show "predict (Inr en) gs fmt off =
        Inr \<lparr>segments = [], language = asr_language en,
             num_speakers = detected_num_speakers (diarization en)\<rparr>"
    by (intro predict_of_empty_merging merging_no_overlap)
next
  assume e: "diarization en = []"
  then have "merging (diarization en) off (map (segment_dict off) (asr_segments en)) = Inr []"
    by (intro merging_no_overlap) simp
  from predict_of_empty_merging[OF this] e show "predict (Inr en) gs fmt off =
        Inr \<lparr>segments = [], language = asr_language en, num_speakers = 0\<rparr>"
    by (simp add: detected_num_speakers_def)
qed

theorem empty_result_is_returned_witness:
  "predict (Inr ex_engines_late) True ''both'' 0 =
     Inr \<lparr>segments = [], language = ''en'', num_speakers = 1\<rparr> \<and>
   predict (Inr ex_engines_no_turns) True ''both'' 0 =
     Inr \<lparr>segments = [], language = ''en'', num_speakers = 0\<rparr>"
proof -
  have m: "merging (diarization ex_engines_late) 0
     (map (segment_dict 0) (asr_segments ex_engines_late)) = Inr []" by code_simp
  have h: "\<forall>s\<in>set (asr_segments ex_engines_late). \<forall>aw\<in>set (as_words s).
        \<forall>t\<in>set (diarization ex_engines_late).
          \<not> (turn_start t \<le> aw_end aw + 2 * real_of_int 0 + 1 / 10 \<and>
             turn_end t \<ge> aw_start aw + 2 * real_of_int 0 - 1 / 10)"
    by (simp add: ex_engines_late_def ex_turn_late_def)
  have d: "diarization ex_engines_no_turns = []" by (simp add: ex_engines_no_turns_def)
  have v: "asr_language ex_engines_late = ''en''" "asr_language ex_engines_no_turns = ''en''"
    "detected_num_speakers (diarization ex_engines_late) = 1" by code_simp+
  from empty_result_is_returned[of ex_engines_late 0 True "''both''"] m h
       empty_result_is_returned[of ex_engines_no_turns 0 True "''both''"] d v
  show ?thesis by (simp add: detected_num_speakers_def)
qed

text \<open>Claim C5. Every group of the output has no \<open>words\<close> key when the format is
  \<open>segments_only\<close> and no \<open>text\<close> key when it is \<open>words_only\<close>, whether the group was started
  fresh or extended by merging.\<close>

theorem shape_invariant:
  assumes "speech_to_text en off gs fmt = Inr (out, n, l)" and "g \<in> set out"
  shows "(fmt = ''segments_only'' \<longrightarrow> g_words g = None) \<and>
         (fmt = ''words_only'' \<longrightarrow> g_text g = None)"
proof -
  from assms(1) obtain s0 rest where "cleaning fmt gs s0 rest = Inr out \<or> out = []"
    by (auto simp: speech_to_text_def Let_def split: sum.splits list.splits)
  then show ?thesis
  proof
    assume "cleaning fmt gs s0 rest = Inr out"
    then have "group_loop fmt gs s0 rest ([], new_group fmt s0) = Inr out"
      by (simp add: cleaning_def)
    from group_loop_shape[OF this _ new_group_shape assms(2)]
    show ?thesis by (simp add: shape_ok_def)
  next
    assume "out = []"
    with assms(2) show ?thesis by simp
  qed
qed

theorem shape_invariant_witness:
  "g_words (ex_out_segments_only ! 0) = None \<and> g_words (ex_out_segments_only ! 1) = None \<and>
   g_text (ex_out_words_only ! 0) = None \<and> g_text (ex_out_words_only ! 1) = None"
proof -
  have a: "ex_out_segments_only ! 0 \<in> set ex_out_segments_only"
    "ex_out_segments_only ! 1 \<in> set ex_out_segments_only"
    by (simp_all add: ex_out_segments_only_def)
  have b: "ex_out_words_only ! 0 \<in> set ex_out_words_only"
    "ex_out_words_only ! 1 \<in> set ex_out_words_only"
    by (simp_all add: ex_out_words_only_def)
  from shape_invariant[OF ex_groups_segments_only a(1)]
       shape_invariant[OF ex_groups_segments_only a(2)]
       shape_invariant[OF ex_groups_words_only b(1)]
       shape_invariant[OF ex_groups_words_only b(2)]
  show ?thesis by simp
qed

text \<open>Claim C6. The text of a final segment is the concatenation of the untrimmed texts of
  its retained words, in order and without separators, passed through \<open>re.sub("  ", " ", _)\<close> and
  then stripped; its word list holds the retained words, each with its own text stripped.\<close>

theorem segment_text_and_words:
  assumes "segment_body dl off seg idx spk = Inr (idx', spk', Some ls)"
  shows "fs_text ls = py_strip (re_sub_two_spaces (concat (map (\<lambda>p. w_word (fst p))
           (retained (alignment dl off (seg_words seg) idx spk))))) \<and>
         fs_words ls = map (\<lambda>p. (fst p)\<lparr>w_word := py_strip (w_word (fst p))\<rparr>)
           (retained (alignment dl off (seg_words seg) idx spk))"
  using segment_body_Some(2,3)[OF assms] by (simp add: comp_def stored_def[abs_def])

theorem segment_text_and_words_witness:
  "fs_text ex_final_two_turns = py_strip (re_sub_two_spaces ('' hi '' @ '' yo'')) \<and>
   fs_text ex_final_two_turns = ''hi yo'' \<and>
   map w_word (fs_words ex_final_two_turns) = [py_strip '' hi '', py_strip '' yo''] \<and>
   map w_word (fs_words ex_final_two_turns) = [''hi'', ''yo'']"
proof -
  have b: "segment_body ex_turns_adjacent 0 (segment_dict 0 ex_seg_two_turns) 0 None
     = Inr (1, Some ''SPEAKER_01'', Some ex_final_two_turns)" by code_simp
  have r: "map (\<lambda>p. w_word (fst p))
     (retained (alignment ex_turns_adjacent 0 (seg_words (segment_dict 0 ex_seg_two_turns)) 0 None))
     = ['' hi '', '' yo'']" by code_simp
  have t: "fs_text ex_final_two_turns = ''hi yo''"
    "map w_word (fs_words ex_final_two_turns) = [''hi'', ''yo'']"
    "py_strip '' hi '' = ''hi''" "py_strip '' yo'' = ''yo''" by code_simp+
  from segment_text_and_words[OF b] have
    "fs_text ex_final_two_turns = py_strip (re_sub_two_spaces (concat (map (\<lambda>p. w_word (fst p))
           (retained (alignment ex_turns_adjacent 0 (seg_words (segment_dict 0 ex_seg_two_turns)) 0 None)))))"
    by simp
  with r t show ?thesis by simp
qed

text \<open>Claim C7 as stated (the speaker of a final segment is the speaker of its first retained
  word) fails on a segment whose two words are retained from two different turns: the segment is
  labelled with the second speaker.\<close>

theorem first_word_speaker_counterexample:
  "segment_body ex_turns_adjacent 0 (segment_dict 0 ex_seg_two_turns) 0 None
     = Inr (1, Some ''SPEAKER_01'', Some ex_final_two_turns) \<and>
   fs_speaker ex_final_two_turns = ''SPEAKER_01'' \<and>
   speaker (snd (hd (retained (alignment ex_turns_adjacent 0
             (seg_words (segment_dict 0 ex_seg_two_turns)) 0 None)))) = ''SPEAKER_00''"
  by code_simp

text \<open>Claim C7, amended. When the last word of the segment is retained, the speaker of the
  final segment is the speaker of the turn that word was retained from, that is, of the last
  retained word.\<close>

theorem segment_speaker_of_last_word:
  assumes "segment_body dl off seg idx spk = Inr (idx', spk', Some ls)"
    and "snd (last (alignment dl off (seg_words seg) idx spk)) = Some t"
  shows "fs_speaker ls = speaker (snd (last (retained (alignment dl off (seg_words seg) idx spk))))
         \<and> snd (last (retained (alignment dl off (seg_words seg) idx spk))) = t"
proof -
  from segment_body_Some(1)[OF assms(1)] have "seg_words seg \<noteq> []" by auto
  from word_loop_speaker_last[OF this assms(2), of "[]" "[]"] segment_body_Some(4)[OF assms(1)]
  show ?thesis by simp
qed

theorem segment_speaker_of_last_word_witness:
  "fs_speaker ex_final_two_turns = ''SPEAKER_01'' \<and>
   map (\<lambda>p. (w_word (fst p), speaker (snd p)))
     (retained (alignment ex_turns_adjacent 0 (seg_words (segment_dict 0 ex_seg_two_turns)) 0 None))
     = [('' hi '', ''SPEAKER_00''), ('' yo'', ''SPEAKER_01'')]"
proof -
  have b: "segment_body ex_turns_adjacent 0 (segment_dict 0 ex_seg_two_turns) 0 None
     = Inr (1, Some ''SPEAKER_01'', Some ex_final_two_turns)" by code_simp
  have l: "snd (last (alignment ex_turns_adjacent 0 (seg_words (segment_dict 0 ex_seg_two_turns)) 0 None))
     = Some (ex_turns_adjacent ! 1)" by code_simp
  have s: "speaker (ex_turns_adjacent ! 1) = ''SPEAKER_01''" by code_simp
  have r: "map (\<lambda>p. (w_word (fst p), speaker (snd p)))
     (retained (alignment ex_turns_adjacent 0 (seg_words (segment_dict 0 ex_seg_two_turns)) 0 None))
     = [('' hi '', ''SPEAKER_00''), ('' yo'', ''SPEAKER_01'')]" by code_simp
  from segment_speaker_of_last_word[OF b l] s r show ?thesis by simp
qed



text \<open>Claim C9. A word built from the engine's word with \<open>offset_seconds\<close> added is matched
  with the offset added a second time: it is retained from turn \<open>t\<close> exactly when \<open>t\<close> is the first
  turn from the cursor on that does not end before \<open>start + 2 * offset - 0.1\<close>, and \<open>t\<close> starts
  no later than \<open>end + 2 * offset + 0.1\<close> (the turns carry no offset). On one and the same input
  the word is dropped with offset 0 and retained with offset 10.\<close>

theorem double_offset_window:
  "(snd (hd (alignment dl off (word_dict off aw # ws) idx spk)) = Some t \<longleftrightarrow>
      (\<exists>j. idx \<le> j \<and> j < length dl \<and> dl ! j = t \<and>
           (\<forall>k. idx \<le> k \<and> k < j \<longrightarrow>
                turn_end (dl ! k) < aw_start aw + 2 * real_of_int off - 1 / 10) \<and>
           turn_start t \<le> aw_end aw + 2 * real_of_int off + 1 / 10 \<and>
           turn_end t \<ge> aw_start aw + 2 * real_of_int off - 1 / 10)) \<and>
   speech_to_text ex_engines_late 0 True ''both'' = Inr ([], 1, ''en'') \<and>
   speech_to_text ex_engines_late 10 True ''both'' = Inr (ex_out_late, 1, ''en'') \<and>
   ex_out_late \<noteq> []"
proof (intro conjI)
  have w: "w_start (word_dict off aw) + real_of_int off - margin
             = aw_start aw + 2 * real_of_int off - 1 / 10"
    "w_end (word_dict off aw) + real_of_int off + margin
             = aw_end aw + 2 * real_of_int off + 1 / 10"
    by (simp_all add: word_dict_def margin_def)
  have "snd (hd (alignment dl off (word_dict off aw # ws) idx spk)) =
        snd (snd (while_speaker dl (aw_start aw + 2 * real_of_int off - 1 / 10)
                    (aw_end aw + 2 * real_of_int off + 1 / 10) idx spk))"
    by (simp add: w split: prod.splits)
  then show "snd (hd (alignment dl off (word_dict off aw # ws) idx spk)) = Some t \<longleftrightarrow>
      (\<exists>j. idx \<le> j \<and> j < length dl \<and> dl ! j = t \<and>
           (\<forall>k. idx \<le> k \<and> k < j \<longrightarrow>
                turn_end (dl ! k) < aw_start aw + 2 * real_of_int off - 1 / 10) \<and>
           turn_start t \<le> aw_end aw + 2 * real_of_int off + 1 / 10 \<and>
           turn_end t \<ge> aw_start aw + 2 * real_of_int off - 1 / 10)"
    by (simp only: while_speaker_matches_iff)
  show "speech_to_text ex_engines_late 0 True ''both'' = Inr ([], 1, ''en'')"
    by (rule ex_late_offset_0)
  show "speech_to_text ex_engines_late 10 True ''both'' = Inr (ex_out_late, 1, ''en'')"
    by (rule ex_late_offset_10)
  show "ex_out_late \<noteq> []" by (simp add: ex_out_late_def)
qed

theorem double_offset_window_witness:
  "snd (hd (alignment ex_turns_adjacent 2
       [word_dict 2 \<lparr>aw_start = 6 / 5, aw_end = 2, aw_word = '' yo'', aw_probability = 1\<rparr>]
       0 None)) = Some (ex_turns_adjacent ! 1) \<and>
   turn_end (ex_turns_adjacent ! 0) < 6 / 5 + 2 * 2 - 1 / 10 \<and>
   turn_start (ex_turns_adjacent ! 1) \<le> 2 + 2 * 2 + 1 / 10 \<and>
   turn_end (ex_turns_adjacent ! 1) \<ge> 6 / 5 + 2 * 2 - 1 / 10"
proof -
  let ?aw = "\<lparr>aw_start = 6 / 5, aw_end = 2, aw_word = '' yo'', aw_probability = 1\<rparr>"
  have k: "\<forall>k. 0 \<le> k \<and> k < (1::nat) \<longrightarrow>
     turn_end (ex_turns_adjacent ! k) < aw_start ?aw + 2 * real_of_int 2 - 1 / 10"
    by (simp add: ex_turns_adjacent_def)
  have r: "(0::nat) \<le> 1 \<and> 1 < length ex_turns_adjacent \<and>
      ex_turns_adjacent ! 1 = ex_turns_adjacent ! 1 \<and>
      turn_start (ex_turns_adjacent ! 1) \<le> aw_end ?aw + 2 * real_of_int 2 + 1 / 10 \<and>
      turn_end (ex_turns_adjacent ! 1) \<ge> aw_start ?aw + 2 * real_of_int 2 - 1 / 10"
    by (simp add: ex_turns_adjacent_def)
  from double_offset_window[of ex_turns_adjacent 2 ?aw "[]" 0 None "ex_turns_adjacent ! 1"] k r
  have "snd (hd (alignment ex_turns_adjacent 2 [word_dict 2 ?aw] 0 None))
          = Some (ex_turns_adjacent ! 1)" by blast
  with k r show ?thesis by simp
qed




end
